theory Spec2Isabelle
  imports Main "HOL-Library.Sublist" "HOL-Library.Word"
begin

section \<open>The rule model (check.go and enable.go, lines 9--72)\<close>

text \<open>
  Both programs declare the same types. \<open>LabelConstraintOp\<close> and \<open>PeerRoleType\<close> are
  Go string types: a decoded document may carry any string there, so they are strings
  here, with the declared constants as named values.
\<close>

type_synonym LabelConstraintOp = string

definition In :: LabelConstraintOp where "In = ''in''"
definition NotIn :: LabelConstraintOp where "NotIn = ''notIn''"
definition Exists :: LabelConstraintOp where "Exists = ''exists''"
definition NotExists :: LabelConstraintOp where "NotExists = ''notExists''"

record LabelConstraint =
  Key :: string
  Op :: LabelConstraintOp
  Values :: "string list"

type_synonym PeerRoleType = string

definition Voter :: PeerRoleType where "Voter = ''voter''"
definition Leader :: PeerRoleType where "Leader = ''leader''"
definition Follower :: PeerRoleType where "Follower = ''follower''"
definition Learner :: PeerRoleType where "Learner = ''learner''"

record RuleGroup =
  ID :: string
  Index :: int
  Override :: bool

text \<open>
  The struct \<open>Rule\<close>. The type parameter is the representation of the field
  \<open>LabelConstraints\<close>: a slice header while the transformer runs (the field is a Go
  slice whose backing array the transformer writes to), the plain sequence of
  constraints in a decoded or encoded document. \<open>Index\<close> and \<open>Count\<close> are Go \<open>int\<close>;
  the programs only store constants in them and never compute with them.
\<close>

record 'cs Rule =
  GroupID :: string
  ID :: string
  Index :: int
  Override :: bool
  StartKey :: "8 word list"
  StartKeyHex :: string
  EndKey :: "8 word list"
  EndKeyHex :: string
  Role :: PeerRoleType
  IsWitness :: bool
  Count :: int
  LabelConstraints :: 'cs
  LocationLabels :: "string list"
  IsolationLevel :: string
  Version :: "64 word"
  CreateTimestamp :: "64 word"
  group :: "RuleGroup option"

type_synonym Rules = "LabelConstraint list Rule list"

definition LabelKeyEngineRole :: string where
  "LabelKeyEngineRole = ''engine_role''"

definition LabelValueEngineRoleWrite :: string where
  "LabelValueEngineRoleWrite = ''write''"

text \<open>
  The panics of the two \<open>main\<close> functions. The first carries no rule (the message is
  the fixed text "got rule that are not tiflash group"); the others print the rule with
  \<open>%v\<close>: "invalid rule: " in both programs, "this rule doesn't disable wn, ignore: " in
  check.go and "rule should have engine_role constraints: " in enable.go.
\<close>

datatype error =
    NotTiflashGroup
  | InvalidRule "LabelConstraint list Rule"
  | DoesntDisableWn "LabelConstraint list Rule"
  | ShouldHaveEngineRole "LabelConstraint list Rule"

section \<open>The scan of a rule's label constraints\<close>

text \<open>
  The inner \<open>for _, con := range rule.LabelConstraints\<close> loop, the same text in
  check.go (lines 92--100) and enable.go (lines 108--116). It returns the value of
  \<open>alreadyDisableWriteRole\<close> when the loop ends (by \<open>break\<close> or at the end of the slice),
  or the panic. Go's \<open>||\<close> is evaluated left to right, so \<open>con.Values[0]\<close> is only read
  when the length is 1.
\<close>

fun scan_constraints :: "LabelConstraint list Rule \<Rightarrow> LabelConstraint list \<Rightarrow> error + bool" where
  "scan_constraints rule [] = Inr False"
| "scan_constraints rule (con # cons) =
     (if Key con = LabelKeyEngineRole then
        (if Op con \<noteq> NotIn \<or> length (Values con) \<noteq> 1
              \<or> Values con ! 0 \<noteq> LabelValueEngineRoleWrite
         then Inl (InvalidRule rule)
         else Inr True)
      else scan_constraints rule cons)"

section \<open>The validator (check.go)\<close>

text \<open>
  The body of the loop over \<open>curRules\<close> (lines 88--103), the loop, and \<open>main\<close> from the
  decoded document on. The validator only reads the rules, so it is modelled on the
  decoded values. Its result is the panic, or the line it prints.
\<close>

definition check_rule :: "LabelConstraint list Rule \<Rightarrow> error + unit" where
  "check_rule rule =
     (if GroupID rule \<noteq> ''tiflash'' then Inl NotTiflashGroup
      else case scan_constraints rule (LabelConstraints rule) of
             Inl e \<Rightarrow> Inl e
           | Inr alreadyDisableWriteRole \<Rightarrow>
               if \<not> alreadyDisableWriteRole then Inl (DoesntDisableWn rule)
               else Inr ())"

fun check_loop :: "Rules \<Rightarrow> error + unit" where
  "check_loop [] = Inr ()"
| "check_loop (rule # rules) =
     (case check_rule rule of
        Inl e \<Rightarrow> Inl e
      | Inr _ \<Rightarrow> check_loop rules)"

definition check_main :: "Rules \<Rightarrow> error + string" where
  "check_main curRules =
     (case check_loop curRules of
        Inl e \<Rightarrow> Inl e
      | Inr _ \<Rightarrow> Inr ''check done, all rules has engine_role constraints'')"

section \<open>Slices of label constraints in memory\<close>

text \<open>
  enable.go truncates \<open>rule.LabelConstraints\<close> to length 0 and appends to it (lines
  127--129). The loop variable \<open>rule\<close> is a copy of the element of \<open>curRules\<close>, but the
  copy's slice header points to the same backing array. So the memory is explicit: a
  heap of backing arrays, and a slice header with the array it points to, its length
  and its capacity. Every slice of the program starts at index 0 of its array.
\<close>

type_synonym heap = "LabelConstraint list list"

record slice =
  array :: nat
  len :: nat
  cap :: nat

definition zero_LabelConstraint :: LabelConstraint where
  "zero_LabelConstraint = \<lparr>Key = [], Op = [], Values = []\<rparr>"

definition slice_elems :: "heap \<Rightarrow> slice \<Rightarrow> LabelConstraint list" where
  "slice_elems h s = take (len s) (h ! array s)"

text \<open>
  Go's \<open>append(s, x)\<close> for one element: within the capacity it writes \<open>x\<close> into the
  backing array at index \<open>len s\<close>; otherwise it allocates a new array, copies the
  elements and adds \<open>x\<close>. The capacity of the new array is the runtime's choice, at
  least the new length: \<open>growcap\<close> is that choice as a function of the old capacity.
\<close>

definition append_slice ::
    "(nat \<Rightarrow> nat) \<Rightarrow> heap \<Rightarrow> slice \<Rightarrow> LabelConstraint \<Rightarrow> heap \<times> slice" where
  "append_slice growcap h s x =
     (if len s < cap s
      then (h[array s := (h ! array s)[len s := x]], s\<lparr>len := len s + 1\<rparr>)
      else
        let newcap = max (len s + 1) (growcap (cap s));
            arr = slice_elems h s @ [x] @ replicate (newcap - (len s + 1)) zero_LabelConstraint
        in (h @ [arr], \<lparr>array = length h, len = len s + 1, cap = newcap\<rparr>))"

text \<open>A rule whose constraints are \<open>cs\<close>, all other fields as in \<open>rule\<close>.\<close>

definition with_constraints :: "'a Rule \<Rightarrow> 'b \<Rightarrow> 'b Rule" where
  "with_constraints rule cs =
     \<lparr>GroupID = GroupID rule, ID = ID rule, Index = Index rule, Override = Override rule,
      StartKey = StartKey rule, StartKeyHex = StartKeyHex rule,
      EndKey = EndKey rule, EndKeyHex = EndKeyHex rule,
      Role = Role rule, IsWitness = IsWitness rule, Count = Count rule,
      LabelConstraints = cs,
      LocationLabels = LocationLabels rule, IsolationLevel = IsolationLevel rule,
      Version = Version rule, CreateTimestamp = CreateTimestamp rule,
      group = group rule\<rparr>"

text \<open>The value of a rule in memory: what \<open>%v\<close> and the JSON encoder read.\<close>

definition rule_value :: "heap \<Rightarrow> slice Rule \<Rightarrow> LabelConstraint list Rule" where
  "rule_value h rule = with_constraints rule (slice_elems h (LabelConstraints rule))"

text \<open>
  \<open>json.Unmarshal\<close> into \<open>curRules\<close>: every rule's \<open>label_constraints\<close> array is decoded
  into a backing array of its own. Its capacity is the decoder's choice, at least the
  length: \<open>deccap\<close> is that choice as a function of the length. Elements past the
  length are zero values.
\<close>

definition alloc_slice ::
    "(nat \<Rightarrow> nat) \<Rightarrow> heap \<Rightarrow> LabelConstraint list \<Rightarrow> heap \<times> slice" where
  "alloc_slice deccap h cs =
     (let c = max (length cs) (deccap (length cs))
      in (h @ [cs @ replicate (c - length cs) zero_LabelConstraint],
          \<lparr>array = length h, len = length cs, cap = c\<rparr>))"

fun Unmarshal_from :: "(nat \<Rightarrow> nat) \<Rightarrow> heap \<Rightarrow> Rules \<Rightarrow> heap \<times> slice Rule list" where
  "Unmarshal_from deccap h [] = (h, [])"
| "Unmarshal_from deccap h (r # rs) =
     (case alloc_slice deccap h (LabelConstraints r) of
        (h1, s) \<Rightarrow>
          (case Unmarshal_from deccap h1 rs of
             (h2, rules) \<Rightarrow> (h2, with_constraints r s # rules)))"

definition Unmarshal :: "(nat \<Rightarrow> nat) \<Rightarrow> Rules \<Rightarrow> heap \<times> slice Rule list" where
  "Unmarshal deccap doc = Unmarshal_from deccap [] doc"

section \<open>The transformer (enable.go, first program)\<close>

text \<open>
  enable.go holds the source of two programs. The first, lines 1--137, is the
  transformer. The second, from line 138 on, copies the id of every rule into an
  otherwise zero rule of group "enable_s3_wn_region" and checks nothing; it is not
  modelled.
\<close>

definition keyspacePrefix1 :: "string \<Rightarrow> string" where
  "keyspacePrefix1 keyspace = ''keyspace-'' @ keyspace @ ''-''"

definition keyspacePrefix2 :: "string \<Rightarrow> string" where
  "keyspacePrefix2 keyspace = ''keyspace-id-'' @ keyspace @ ''-''"

text \<open>\<open>strings.Contains(s, substr)\<close>: \<open>substr\<close> occurs in \<open>s\<close> as a contiguous run.\<close>

fun Contains :: "string \<Rightarrow> string \<Rightarrow> bool" where
  "Contains [] substr = (substr = [])"
| "Contains (c # s) substr = (prefix substr (c # s) \<or> Contains s substr)"

definition tiflashConstraint :: LabelConstraint where
  "tiflashConstraint = \<lparr>Key = ''engine'', Op = In, Values = [''tiflash'']\<rparr>"

definition wnConstraint :: LabelConstraint where
  "wnConstraint = \<lparr>Key = ''engine_role'', Op = In, Values = [''write'']\<rparr>"

text \<open>
  The body of the loop over \<open>curRules\<close> (lines 104--130) on the copy \<open>rule\<close>: the panic,
  or the heap after the iteration with the rule appended to \<open>newRules\<close>, if any
  (\<open>None\<close> is the \<open>continue\<close> of line 121).
\<close>

definition enable_rule ::
    "(nat \<Rightarrow> nat) \<Rightarrow> string \<Rightarrow> heap \<Rightarrow> slice Rule \<Rightarrow> error + heap \<times> slice Rule option" where
  "enable_rule growcap keyspace h rule =
     (if GroupID rule \<noteq> ''tiflash'' then Inl NotTiflashGroup
      else case scan_constraints (rule_value h rule) (slice_elems h (LabelConstraints rule)) of
             Inl e \<Rightarrow> Inl e
           | Inr alreadyDisableWriteRole \<Rightarrow>
               if \<not> alreadyDisableWriteRole then Inl (ShouldHaveEngineRole (rule_value h rule))
               else if \<not> Contains (ID rule) (keyspacePrefix1 keyspace)
                       \<and> \<not> Contains (ID rule) (keyspacePrefix2 keyspace)
               then Inr (h, None)
               else
                 let rule1 = rule\<lparr>GroupID := ''enable_s3_wn_region''\<rparr>;
                     rule2 = rule1\<lparr>Index := 1\<rparr>;
                     rule3 = rule2\<lparr>Count := 1\<rparr>;
                     rule4 = rule3\<lparr>LabelConstraints := (LabelConstraints rule3)\<lparr>len := 0\<rparr>\<rparr>
                 in case append_slice growcap h (LabelConstraints rule4) wnConstraint of
                      (h1, s1) \<Rightarrow>
                        let rule5 = rule4\<lparr>LabelConstraints := s1\<rparr>
                        in case append_slice growcap h1 (LabelConstraints rule5) tiflashConstraint of
                             (h2, s2) \<Rightarrow>
                               let rule6 = rule5\<lparr>LabelConstraints := s2\<rparr>
                               in Inr (h2, Some rule6))"

text \<open>
  The loop: the heap, the rest of \<open>curRules\<close> and \<open>newRules\<close> so far. \<open>newRules\<close> is a
  slice of rule structs of its own, to which each rule is copied; the program keeps no
  other reference into it, so it is a list here.
\<close>

fun enable_loop ::
    "(nat \<Rightarrow> nat) \<Rightarrow> string \<Rightarrow> heap \<Rightarrow> slice Rule list \<Rightarrow> slice Rule list
       \<Rightarrow> error + heap \<times> slice Rule list" where
  "enable_loop growcap keyspace h [] newRules = Inr (h, newRules)"
| "enable_loop growcap keyspace h (rule # rules) newRules =
     (case enable_rule growcap keyspace h rule of
        Inl e \<Rightarrow> Inl e
      | Inr (h', None) \<Rightarrow> enable_loop growcap keyspace h' rules newRules
      | Inr (h', Some rule') \<Rightarrow> enable_loop growcap keyspace h' rules (newRules @ [rule']))"

text \<open>
  A run of \<open>main\<close> from the decoded document on: the panic, or the memory when the loop
  has ended (the heap, \<open>curRules\<close> and \<open>newRules\<close>). \<open>enable_main\<close> is what the run
  prints: the values of \<open>newRules\<close>, which \<open>json.MarshalIndent\<close> encodes.
\<close>

definition enable_run ::
    "(nat \<Rightarrow> nat) \<Rightarrow> (nat \<Rightarrow> nat) \<Rightarrow> string \<Rightarrow> Rules
       \<Rightarrow> error + heap \<times> slice Rule list \<times> slice Rule list" where
  "enable_run deccap growcap keyspace doc =
     (case Unmarshal deccap doc of
        (h, curRules) \<Rightarrow>
          (case enable_loop growcap keyspace h curRules [] of
             Inl e \<Rightarrow> Inl e
           | Inr (h', newRules) \<Rightarrow> Inr (h', curRules, newRules)))"

definition enable_main ::
    "(nat \<Rightarrow> nat) \<Rightarrow> (nat \<Rightarrow> nat) \<Rightarrow> string \<Rightarrow> Rules \<Rightarrow> error + Rules" where
  "enable_main deccap growcap keyspace doc =
     (case enable_run deccap growcap keyspace doc of
        Inl e \<Rightarrow> Inl e
      | Inr (h', curRules, newRules) \<Rightarrow> Inr (map (rule_value h') newRules))"

section \<open>Notions for stating and proving the properties\<close>

text \<open>The zero value of the struct \<open>Rule\<close>, from which the decoder fills in a rule.\<close>

definition zero_Rule :: "LabelConstraint list Rule" where
  "zero_Rule =
     \<lparr>GroupID = [], ID = [], Index = 0, Override = False, StartKey = [], StartKeyHex = [],
      EndKey = [], EndKeyHex = [], Role = [], IsWitness = False, Count = 0,
      LabelConstraints = [], LocationLabels = [], IsolationLevel = [], Version = 0,
      CreateTimestamp = 0, group = None\<rparr>"

text \<open>The scope test of enable.go line 120 (there negated, before \<open>continue\<close>).\<close>

definition in_scope :: "string \<Rightarrow> 'a Rule \<Rightarrow> bool" where
  "in_scope keyspace rule =
     (Contains (ID rule) (keyspacePrefix1 keyspace) \<or> Contains (ID rule) (keyspacePrefix2 keyspace))"

text \<open>
  The transformer on values, without memory: the checks of lines 104--119 on a value,
  the rule that lines 124--129 make of a value, and the loop. \<open>enable_main\<close> is proved
  equal to \<open>enable_values\<close> below; the properties of \<open>enable_main\<close> follow from that.
\<close>

definition enable_check :: "LabelConstraint list Rule \<Rightarrow> error + unit" where
  "enable_check rule =
     (if GroupID rule \<noteq> ''tiflash'' then Inl NotTiflashGroup
      else case scan_constraints rule (LabelConstraints rule) of
             Inl e \<Rightarrow> Inl e
           | Inr alreadyDisableWriteRole \<Rightarrow>
               if \<not> alreadyDisableWriteRole then Inl (ShouldHaveEngineRole rule)
               else Inr ())"

definition rewritten :: "LabelConstraint list Rule \<Rightarrow> LabelConstraint list Rule" where
  "rewritten rule =
     rule\<lparr>GroupID := ''enable_s3_wn_region'', Index := 1, Count := 1,
          LabelConstraints := [wnConstraint, tiflashConstraint]\<rparr>"

fun enable_values :: "string \<Rightarrow> Rules \<Rightarrow> error + Rules" where
  "enable_values keyspace [] = Inr []"
| "enable_values keyspace (r # rs) =
     (case enable_check r of
        Inl e \<Rightarrow> Inl e
      | Inr _ \<Rightarrow>
          (case enable_values keyspace rs of
             Inl e \<Rightarrow> Inl e
           | Inr out \<Rightarrow> Inr (if in_scope keyspace r then rewritten r # out else out)))"

text \<open>
  What an element of \<open>curRules\<close> reads as once the loop body has rewritten its copy: the
  two appends have written into the front of the shared backing array.
\<close>

definition overwritten :: "LabelConstraint list Rule \<Rightarrow> LabelConstraint list Rule" where
  "overwritten rule =
     rule\<lparr>LabelConstraints :=
            take (length (LabelConstraints rule))
              (wnConstraint # tiflashConstraint # drop 2 (LabelConstraints rule))\<rparr>"

definition touched :: "string \<Rightarrow> LabelConstraint list Rule \<Rightarrow> LabelConstraint list Rule" where
  "touched keyspace rule = (if in_scope keyspace rule then overwritten rule else rule)"

text \<open>
  Well-formed memory: a slice header points into the heap, its length is within its
  capacity, and its capacity is the length of its backing array; the rules of a
  sequence have backing arrays of their own.
\<close>

definition slice_ok :: "heap \<Rightarrow> slice \<Rightarrow> bool" where
  "slice_ok h s = (array s < length h \<and> len s \<le> cap s \<and> length (h ! array s) = cap s)"

definition arr_of :: "slice Rule \<Rightarrow> nat" where
  "arr_of rule = array (LabelConstraints rule)"

definition rules_ok :: "heap \<Rightarrow> slice Rule list \<Rightarrow> bool" where
  "rules_ok h rules =
     (distinct (map arr_of rules) \<and> (\<forall>r\<in>set rules. slice_ok h (LabelConstraints r)))"

text \<open>
  What a run of the loop from heap \<open>h\<close> over \<open>rules\<close> establishes, for the heap \<open>h'\<close> and
  the rules \<open>new\<close> it ends with: \<open>new\<close> reads as \<open>out\<close>; the heap has only grown; arrays
  of no rule are as before; the arrays of \<open>new\<close> are those of \<open>rules\<close> or new ones; and
  \<open>rules\<close> read as \<open>touched\<close> says.
\<close>

definition loop_post ::
    "string \<Rightarrow> heap \<Rightarrow> slice Rule list \<Rightarrow> Rules \<Rightarrow> heap \<Rightarrow> slice Rule list \<Rightarrow> bool" where
  "loop_post ks h rules out h' new =
     (map (rule_value h') new = out
      \<and> length h \<le> length h'
      \<and> (\<forall>a<length h. a \<notin> arr_of ` set rules \<longrightarrow> h' ! a = h ! a)
      \<and> (\<forall>r\<in>set new. arr_of r < length h'
             \<and> (arr_of r \<in> arr_of ` set rules \<or> length h \<le> arr_of r))
      \<and> map (rule_value h') rules = map (touched ks) (map (rule_value h) rules))"

section \<open>The scan, the scope test and single appends\<close>

lemma Contains_iff_sublist: "Contains s substr = sublist substr s"
  by (induction s) (auto simp: sublist_Cons_right)

lemma single_value: "(length vs = Suc 0 \<and> vs ! 0 = w) = (vs = [w])"
  by (cases vs) auto

lemma scan_constraints_find:
  "scan_constraints rule cs =
     (case find (\<lambda>c. Key c = LabelKeyEngineRole) cs of
        None \<Rightarrow> Inr False
      | Some c \<Rightarrow> if Op c = NotIn \<and> Values c = [LabelValueEngineRoleWrite] then Inr True
                  else Inl (InvalidRule rule))"
  by (induction cs) (auto dest: single_value[THEN iffD1, OF conjI])

lemma scan_constraints_True_nonempty:
  "scan_constraints rule cs = Inr True \<Longrightarrow> cs \<noteq> []"
  by (cases cs) auto

lemma append_slice_in_place:
  assumes "slice_ok h s" "len s < cap s"
  shows "append_slice g h s x = (h[array s := (h ! array s)[len s := x]], s\<lparr>len := Suc (len s)\<rparr>)"
  using assms by (simp add: append_slice_def)

lemma append_slice_facts:
  assumes ok: "slice_ok h s" and ap: "append_slice g h s x = (h', s')"
  shows "slice_ok h' s'"
    and "slice_elems h' s' = slice_elems h s @ [x]"
    and "length h \<le> length h'"
    and "\<forall>a<length h. a \<noteq> array s \<longrightarrow> h' ! a = h ! a"
    and "array s' = array s \<or> array s' = length h"
    and "len s' = Suc (len s)"
    and "h' ! array s = (if len s < cap s then (h ! array s)[len s := x] else h ! array s)"
    and "length h' \<le> Suc (length h)"
proof -
  show "slice_ok h' s'"
    using ok ap by (auto simp: append_slice_def slice_ok_def Let_def slice_elems_def nth_append split: if_splits)
  show "slice_elems h' s' = slice_elems h s @ [x]"
    using ok ap by (auto simp: append_slice_def slice_ok_def Let_def slice_elems_def nth_append take_Suc_conv_app_nth split: if_splits)
  show "length h \<le> length h'"
    using ok ap by (auto simp: append_slice_def Let_def split: if_splits)
  show "\<forall>a<length h. a \<noteq> array s \<longrightarrow> h' ! a = h ! a"
    using ok ap by (auto simp: append_slice_def Let_def nth_append split: if_splits)
  show "array s' = array s \<or> array s' = length h"
    using ok ap by (auto simp: append_slice_def Let_def split: if_splits)
  show "len s' = Suc (len s)"
    using ok ap by (auto simp: append_slice_def Let_def split: if_splits)
  show "h' ! array s = (if len s < cap s then (h ! array s)[len s := x] else h ! array s)"
    using ok ap by (auto simp: append_slice_def slice_ok_def Let_def nth_append split: if_splits)
  show "length h' \<le> Suc (length h)"
    using ok ap by (auto simp: append_slice_def Let_def split: if_splits)
qed

section \<open>One iteration of the transformer's loop\<close>

lemma take_overwrite:
  assumes "0 < n" "n \<le> length arr"
  shows "take n (if 1 < length arr then arr[0 := w, 1 := t] else arr[0 := w])
         = take n (w # t # drop 2 (take n arr))"
proof (cases arr)
  case Nil
  with assms show ?thesis by simp
next
  case (Cons a as)
  note c1 = this
  show ?thesis
  proof (cases as)
    case Nil
    with c1 assms show ?thesis by (cases n) auto
  next
    case (Cons b bs)
    obtain m where n: "n = Suc m" using assms(1) by (cases n) auto
    show ?thesis
    proof (cases m)
      case 0
      with n c1 Cons show ?thesis by simp
    next
      case (Suc k)
      with n c1 Cons show ?thesis by simp
    qed
  qed
qed

lemma rule_value_in_scope [simp]: "in_scope ks (rule_value h rule) = in_scope ks rule"
  by (simp add: in_scope_def rule_value_def with_constraints_def)

lemma enable_rule_error:
  assumes "enable_check (rule_value h rule) = Inl e"
  shows "enable_rule g ks h rule = Inl e"
  using assms
  by (auto simp: enable_rule_def enable_check_def rule_value_def with_constraints_def
           split: if_splits sum.splits)

lemma enable_rule_dropped:
  assumes "enable_check (rule_value h rule) = Inr ()" "\<not> in_scope ks rule"
  shows "enable_rule g ks h rule = Inr (h, None)"
  using assms
  by (auto simp: enable_rule_def enable_check_def rule_value_def with_constraints_def in_scope_def
           split: if_splits sum.splits)

lemma enable_check_nonempty:
  assumes "enable_check v = Inr ()"
  shows "LabelConstraints v \<noteq> []"
  using assms scan_constraints_True_nonempty[of v "LabelConstraints v"]
  by (auto simp: enable_check_def split: if_splits sum.splits)

lemma enable_rule_rewrites:
  assumes ok: "slice_ok h (LabelConstraints rule)"
    and chk: "enable_check (rule_value h rule) = Inr ()"
    and sc: "in_scope ks rule"
  shows "\<exists>h' rule'. enable_rule g ks h rule = Inr (h', Some rule')
           \<and> length h \<le> length h'
           \<and> (\<forall>a<length h. a \<noteq> array (LabelConstraints rule) \<longrightarrow> h' ! a = h ! a)
           \<and> slice_ok h' (LabelConstraints rule')
           \<and> (array (LabelConstraints rule') = array (LabelConstraints rule)
                \<or> length h \<le> array (LabelConstraints rule'))
           \<and> rule_value h' rule' = rewritten (rule_value h rule)
           \<and> slice_ok h' (LabelConstraints rule)
           \<and> rule_value h' rule = overwritten (rule_value h rule)"
proof -
  define s where "s = LabelConstraints rule"
  define s0 where "s0 = s\<lparr>len := 0\<rparr>"
  have ne: "slice_elems h s \<noteq> []"
    using enable_check_nonempty[OF chk] by (simp add: rule_value_def with_constraints_def s_def)
  then have len_pos: "0 < len s" by (auto simp: slice_elems_def)
  have oks: "slice_ok h s" using ok by (simp add: s_def)
  then have cap_pos: "0 < cap s" using len_pos by (simp add: slice_ok_def)
  have ok0: "slice_ok h s0" using oks by (simp add: slice_ok_def s0_def)
  obtain h1 s1 where a1: "append_slice g h s0 wnConstraint = (h1, s1)"
    by (cases "append_slice g h s0 wnConstraint") auto
  have h1_eq: "h1 = h[array s := (h ! array s)[0 := wnConstraint]]" and s1_eq: "s1 = s\<lparr>len := Suc 0\<rparr>"
    using a1 cap_pos by (simp_all add: append_slice_def s0_def)
  note f1 = append_slice_facts[OF ok0 a1]
  obtain h2 s2 where a2: "append_slice g h1 s1 tiflashConstraint = (h2, s2)"
    by (cases "append_slice g h1 s1 tiflashConstraint") auto
  note f2 = append_slice_facts[OF f1(1) a2]
  define rule' where "rule' = rule\<lparr>GroupID := ''enable_s3_wn_region'', Index := 1, Count := 1,
                                    LabelConstraints := s2\<rparr>"
  have scan: "scan_constraints (rule_value h rule) (slice_elems h s) = Inr True"
    and grp: "GroupID rule = ''tiflash''"
    using chk
    by (auto simp: enable_check_def rule_value_def with_constraints_def s_def
             split: if_splits sum.splits)
  have res: "enable_rule g ks h rule = Inr (h2, Some rule')"
    using scan grp sc a1 a2
    by (simp add: enable_rule_def in_scope_def s_def[symmetric] s0_def[symmetric] rule'_def)
  have len12: "length h \<le> length h2" using f1(3) f2(3) by simp
  have arr1: "array s1 = array s" by (simp add: s1_eq)
  have len1: "length h1 = length h" by (simp add: h1_eq)
  have frame: "\<forall>a<length h. a \<noteq> array s \<longrightarrow> h2 ! a = h ! a"
    using f2(4) len1 arr1 by (simp add: h1_eq)
  have where2: "array s2 = array s \<or> length h \<le> array s2"
    using f2(5) arr1 len1 by auto
  have elems2: "slice_elems h2 s2 = [wnConstraint, tiflashConstraint]"
    using f2(2) f1(2) by (simp add: slice_elems_def s0_def)
  have val: "rule_value h2 rule' = rewritten (rule_value h rule)"
    using elems2 by (simp add: rule_value_def rule'_def rewritten_def with_constraints_def)
  have arr_h1: "h1 ! array s = (h ! array s)[0 := wnConstraint]"
    using oks by (simp add: h1_eq slice_ok_def)
  have arr_h2: "h2 ! array s = (if 1 < cap s then (h ! array s)[0 := wnConstraint, 1 := tiflashConstraint]
                                else (h ! array s)[0 := wnConstraint])"
    using f2(7) arr_h1 by (simp add: s1_eq)
  have ok_after: "slice_ok h2 s"
    using oks len12 arr_h2 by (auto simp: slice_ok_def)
  have capl: "cap s = length (h ! array s)" using oks by (simp add: slice_ok_def)
  have lenle: "len s \<le> length (h ! array s)" using oks by (simp add: slice_ok_def)
  have "slice_elems h2 s = take (len s) (wnConstraint # tiflashConstraint # drop 2 (slice_elems h s))"
    unfolding slice_elems_def arr_h2 capl
    using take_overwrite[OF len_pos lenle] by simp
  moreover have "length (slice_elems h s) = len s"
    using lenle by (simp add: slice_elems_def)
  ultimately have over: "rule_value h2 rule = overwritten (rule_value h rule)"
    by (simp add: rule_value_def overwritten_def with_constraints_def s_def)
  show ?thesis
    using res len12 frame f2(1) where2 val ok_after over
    by (auto simp: s_def rule'_def)
qed

section \<open>The loop, decoding, and the transformer on values\<close>

lemma rule_value_cong:
  "h' ! arr_of r = h ! arr_of r \<Longrightarrow> rule_value h' r = rule_value h r"
  by (simp add: rule_value_def slice_elems_def arr_of_def)

lemma slice_ok_cong:
  "slice_ok h s \<Longrightarrow> length h \<le> length h' \<Longrightarrow> h' ! array s = h ! array s \<Longrightarrow> slice_ok h' s"
  by (simp add: slice_ok_def)

lemma enable_loop_acc:
  "enable_loop g ks h rules (acc @ new)
   = (case enable_loop g ks h rules new of
        Inl e \<Rightarrow> Inl e
      | Inr (h', out) \<Rightarrow> Inr (h', acc @ out))"
  by (induction rules arbitrary: h new) (auto split: sum.splits option.splits)

lemma enable_loop_values:
  assumes "rules_ok h rules"
  shows "case enable_values ks (map (rule_value h) rules) of
           Inl e \<Rightarrow> enable_loop g ks h rules [] = Inl e
         | Inr out \<Rightarrow> (\<exists>h' new. enable_loop g ks h rules [] = Inr (h', new)
                           \<and> loop_post ks h rules out h' new)"
  using assms
proof (induction rules arbitrary: h)
  case Nil
  show ?case by (simp add: loop_post_def)
next
  case (Cons rule rules)
  let ?v = "rule_value h rule"
  have ok: "slice_ok h (LabelConstraints rule)"
    and dist: "arr_of rule \<notin> arr_of ` set rules"
    and tl_ok: "rules_ok h rules"
    using Cons.prems by (auto simp: rules_ok_def)
  have below: "\<forall>r\<in>set rules. arr_of r < length h"
    using tl_ok by (auto simp: rules_ok_def slice_ok_def arr_of_def)
  have rule_below: "arr_of rule < length h"
    using ok by (simp add: slice_ok_def arr_of_def)
  show ?case
  proof (cases "enable_check ?v")
    case (Inl e)
    then show ?thesis using enable_rule_error[OF Inl, where g = g and ks = ks] by simp
  next
    case (Inr u)
    then have chk: "enable_check ?v = Inr ()" by simp
    show ?thesis
    proof (cases "in_scope ks rule")
      case False
      have step: "enable_rule g ks h rule = Inr (h, None)"
        using enable_rule_dropped[OF chk False, where g = g] .
      have t: "touched ks ?v = ?v" using False by (simp add: touched_def)
      show ?thesis
      proof (cases "enable_values ks (map (rule_value h) rules)")
        case (Inl e)
        then show ?thesis using Cons.IH[OF tl_ok] chk step by simp
      next
        case (Inr out)
        then obtain h' new where run: "enable_loop g ks h rules [] = Inr (h', new)"
          and post: "loop_post ks h rules out h' new"
          using Cons.IH[OF tl_ok] by auto
        have keep: "h' ! arr_of rule = h ! arr_of rule"
          using post dist rule_below by (simp add: loop_post_def)
        have "loop_post ks h (rule # rules) out h' new"
          using post t rule_value_cong[OF keep] by (auto simp: loop_post_def)
        then show ?thesis using Inr chk step run False by simp
      qed
    next
      case True
      obtain h1 rule1 where step: "enable_rule g ks h rule = Inr (h1, Some rule1)"
        and grow: "length h \<le> length h1"
        and frame: "\<forall>a<length h. a \<noteq> array (LabelConstraints rule) \<longrightarrow> h1 ! a = h ! a"
        and ok1: "slice_ok h1 (LabelConstraints rule1)"
        and where1: "array (LabelConstraints rule1) = array (LabelConstraints rule)
                       \<or> length h \<le> array (LabelConstraints rule1)"
        and val1: "rule_value h1 rule1 = rewritten ?v"
        and ok_rule: "slice_ok h1 (LabelConstraints rule)"
        and over: "rule_value h1 rule = overwritten ?v"
        using enable_rule_rewrites[OF ok chk True, where g = g] by blast
      have same: "\<forall>r\<in>set rules. h1 ! arr_of r = h ! arr_of r"
      proof
        fix r assume r: "r \<in> set rules"
        then have "arr_of r \<noteq> arr_of rule" using dist by (metis imageI)
        moreover have "arr_of r < length h" using below r by simp
        ultimately show "h1 ! arr_of r = h ! arr_of r"
          using frame by (simp add: arr_of_def)
      qed
      have vals: "map (rule_value h1) rules = map (rule_value h) rules"
        using same by (auto intro: rule_value_cong)
      have tl_ok1: "rules_ok h1 rules"
        using tl_ok same grow by (auto simp: rules_ok_def arr_of_def intro: slice_ok_cong)
      have t: "touched ks ?v = overwritten ?v" using True by (simp add: touched_def)
      have out1: "arr_of rule1 \<notin> arr_of ` set rules"
        using where1 dist below by (auto simp: arr_of_def)
      have out1_below: "arr_of rule1 < length h1"
        using ok1 by (simp add: slice_ok_def arr_of_def)
      have rule_below1: "arr_of rule < length h1" using rule_below grow by simp
      have acc: "enable_loop g ks h1 rules [rule1]
                 = (case enable_loop g ks h1 rules [] of
                      Inl e \<Rightarrow> Inl e | Inr (h', out) \<Rightarrow> Inr (h', [rule1] @ out))"
        using enable_loop_acc[of g ks h1 rules "[rule1]" "[]"] by simp
      show ?thesis
      proof (cases "enable_values ks (map (rule_value h) rules)")
        case (Inl e)
        then have "enable_loop g ks h1 rules [] = Inl e"
          using Cons.IH[OF tl_ok1] vals by simp
        then show ?thesis using Inl chk step acc by simp
      next
        case (Inr out)
        then obtain h' new where run: "enable_loop g ks h1 rules [] = Inr (h', new)"
          and post: "loop_post ks h1 rules out h' new"
          using Cons.IH[OF tl_ok1] vals by auto
        have keep1: "h' ! arr_of rule1 = h1 ! arr_of rule1"
          using post out1 out1_below by (simp add: loop_post_def)
        have keep: "h' ! arr_of rule = h1 ! arr_of rule"
          using post dist rule_below1 by (simp add: loop_post_def)
        have grow': "length h1 \<le> length h'" using post by (simp add: loop_post_def)
        have p1: "map (rule_value h') (rule1 # new) = rewritten ?v # out"
          using post rule_value_cong[OF keep1] val1 by (simp add: loop_post_def)
        have p3: "\<forall>a<length h. a \<notin> arr_of ` set (rule # rules) \<longrightarrow> h' ! a = h ! a"
        proof (intro allI impI)
          fix a assume a: "a < length h" "a \<notin> arr_of ` set (rule # rules)"
          then have "h' ! a = h1 ! a" using post grow by (simp add: loop_post_def)
          moreover have "h1 ! a = h ! a" using frame a by (simp add: arr_of_def)
          ultimately show "h' ! a = h ! a" by simp
        qed
        have p4: "\<forall>r\<in>set (rule1 # new). arr_of r < length h'
                    \<and> (arr_of r \<in> arr_of ` set (rule # rules) \<or> length h \<le> arr_of r)"
        proof
          fix r assume "r \<in> set (rule1 # new)"
          then consider "r = rule1" | "r \<in> set new" by auto
          then show "arr_of r < length h'
                    \<and> (arr_of r \<in> arr_of ` set (rule # rules) \<or> length h \<le> arr_of r)"
          proof cases
            case 1
            then show ?thesis using out1_below grow' where1 by (auto simp: arr_of_def)
          next
            case 2
            then have "arr_of r < length h'"
              and "arr_of r \<in> arr_of ` set rules \<or> length h1 \<le> arr_of r"
              using post by (auto simp: loop_post_def)
            then show ?thesis using grow by auto
          qed
        qed
        have p5: "map (rule_value h') (rule # rules) = map (touched ks) (map (rule_value h) (rule # rules))"
          using post rule_value_cong[OF keep] over t vals by (simp add: loop_post_def)
        have "loop_post ks h (rule # rules) (rewritten ?v # out) h' (rule1 # new)"
          unfolding loop_post_def using p1 p3 p4 p5 grow grow' by simp
        then show ?thesis using Inr chk step acc run True by simp
      qed
    qed
  qed
qed

lemma Unmarshal_from_facts:
  assumes "Unmarshal_from d h doc = (h', rules)"
  shows "length h' = length h + length doc
       \<and> (\<forall>a<length h. h' ! a = h ! a)
       \<and> map arr_of rules = [length h..<length h + length doc]
       \<and> map (rule_value h') rules = doc
       \<and> (\<forall>r\<in>set rules. slice_ok h' (LabelConstraints r))"
  using assms
proof (induction doc arbitrary: h h' rules)
  case Nil
  then show ?case by simp
next
  case (Cons r rs)
  define cs where "cs = LabelConstraints r"
  define c where "c = max (length cs) (d (length cs))"
  define h1 where "h1 = h @ [cs @ replicate (c - length cs) zero_LabelConstraint]"
  define s where "s = \<lparr>array = length h, len = length cs, cap = c\<rparr>"
  have al: "alloc_slice d h (LabelConstraints r) = (h1, s)"
    by (simp add: alloc_slice_def Let_def cs_def c_def h1_def s_def)
  obtain h2 rules2 where rec: "Unmarshal_from d h1 rs = (h2, rules2)"
    by (cases "Unmarshal_from d h1 rs") auto
  have res: "h' = h2" "rules = with_constraints r s # rules2"
    using Cons.prems al rec by simp_all
  note ih = Cons.IH[OF rec]
  have len1: "length h1 = Suc (length h)" by (simp add: h1_def)
  have len2: "length h2 = length h + length (r # rs)" using ih len1 by simp
  have keep: "\<forall>a<length h1. h2 ! a = h1 ! a" using ih by simp
  have at: "h2 ! length h = cs @ replicate (c - length cs) zero_LabelConstraint"
    using keep len1 by (simp add: h1_def)
  have frame: "\<forall>a<length h. h2 ! a = h ! a"
    using keep len1 by (simp add: h1_def nth_append)
  have "[length h..<length h + length (r # rs)]
          = length h # [length h1..<length h1 + length rs]"
    unfolding len1 by (subst upt_rec) simp
  moreover have "arr_of (with_constraints r s) = length h"
    by (simp add: arr_of_def with_constraints_def s_def)
  moreover have "map arr_of rules2 = [length h1..<length h1 + length rs]"
    using ih by blast
  ultimately have arrs: "map arr_of (with_constraints r s # rules2)
                         = [length h..<length h + length (r # rs)]"
    by simp
  have v: "rule_value h2 (with_constraints r s) = r"
    using at by (simp add: rule_value_def slice_elems_def with_constraints_def s_def cs_def)
  have ok: "slice_ok h2 (LabelConstraints (with_constraints r s))"
    using at len2 by (simp add: slice_ok_def with_constraints_def s_def c_def)
  show ?case
    unfolding res using len2 frame arrs v ok ih by simp
qed

lemma Unmarshal_ok:
  assumes "Unmarshal d doc = (h, rules)"
  shows "rules_ok h rules" and "map (rule_value h) rules = doc"
proof -
  have f: "map arr_of rules = [0..<length doc]" "map (rule_value h) rules = doc"
    "\<forall>r\<in>set rules. slice_ok h (LabelConstraints r)"
    using Unmarshal_from_facts[OF assms[unfolded Unmarshal_def]] by simp_all
  show "rules_ok h rules" using f(1,3) by (simp add: rules_ok_def)
  show "map (rule_value h) rules = doc" by (rule f(2))
qed

lemma enable_run_values:
  "case enable_values ks doc of
     Inl e \<Rightarrow> enable_run d g ks doc = Inl e
   | Inr out \<Rightarrow> (\<exists>h' cur new. enable_run d g ks doc = Inr (h', cur, new)
                    \<and> map (rule_value h') new = out
                    \<and> map (rule_value h') cur = map (touched ks) doc)"
proof -
  obtain h cur where un: "Unmarshal d doc = (h, cur)"
    by (cases "Unmarshal d doc") auto
  note ok = Unmarshal_ok[OF un]
  show ?thesis
    using enable_loop_values[OF ok(1), where ks = ks and g = g] ok(2) un
    by (auto simp: enable_run_def loop_post_def split: sum.splits)
qed

lemma enable_main_values: "enable_main d g ks doc = enable_values ks doc"
  using enable_run_values[where ks = ks and doc = doc and d = d and g = g]
  by (auto simp: enable_main_def split: sum.splits)

lemma enable_values_Inr:
  "enable_values ks doc = Inr out \<Longrightarrow>
     out = map rewritten (filter (in_scope ks) doc) \<and> (\<forall>r\<in>set doc. enable_check r = Inr ())"
  by (induction doc arbitrary: out) (auto split: sum.splits if_splits)

lemma enable_values_all_ok:
  "\<forall>r\<in>set doc. enable_check r = Inr () \<Longrightarrow>
     enable_values ks doc = Inr (map rewritten (filter (in_scope ks) doc))"
  by (induction doc) auto

lemma enable_values_first_error:
  "\<forall>p\<in>set pre. enable_check p = Inr () \<Longrightarrow> enable_check r = Inl e \<Longrightarrow>
     enable_values ks (pre @ r # post) = Inl e"
  by (induction pre) auto

lemma check_loop_all_ok:
  "(check_loop rules = Inr ()) = (\<forall>r\<in>set rules. check_rule r = Inr ())"
  by (induction rules) (auto split: sum.splits)

lemma check_loop_first_error:
  "\<forall>p\<in>set pre. check_rule p = Inr () \<Longrightarrow> check_rule r = Inl e \<Longrightarrow>
     check_loop (pre @ r # post) = Inl e"
  by (induction pre) auto

lemma enable_check_ok_iff: "(enable_check r = Inr ()) = (check_rule r = Inr ())"
  by (auto simp: enable_check_def check_rule_def split: sum.splits)


lemma enable_main_all_ok:
  assumes "\<forall>r\<in>set doc. check_rule r = Inr ()"
  shows "enable_main d g ks doc = Inr (map rewritten (filter (in_scope ks) doc))"
  using assms by (simp add: enable_main_values enable_values_all_ok enable_check_ok_iff)

lemma enable_main_Inr:
  assumes "enable_main d g ks doc = Inr out"
  shows "out = map rewritten (filter (in_scope ks) doc)"
    and "\<forall>r\<in>set doc. check_rule r = Inr ()"
  using enable_values_Inr[of ks doc out] assms
  by (simp_all add: enable_main_values enable_check_ok_iff)

section \<open>The claims\<close>

text \<open>
  C1. When every rule of the document passes the group check and the exclusion check,
  the transformer returns a document with one rule for every input rule whose id
  matches the scope, in that order; the output rule has the id of its input rule,
  groupID "enable_s3_wn_region", index 1, count 1, and as its labelConstraints exactly
  the two constraints (engine_role, in, [write]) and (engine, in, [tiflash]), in this
  order.
\<close>

theorem in_scope_rule_is_rewritten:
  assumes "\<forall>r\<in>set doc. check_rule r = Inr ()"
  shows "\<exists>out. enable_main deccap growcap keyspace doc = Inr out
           \<and> length out = length (filter (in_scope keyspace) doc)
           \<and> (\<forall>i<length out.
                  ID (out ! i) = ID (filter (in_scope keyspace) doc ! i)
                \<and> GroupID (out ! i) = ''enable_s3_wn_region''
                \<and> Index (out ! i) = 1
                \<and> Count (out ! i) = 1
                \<and> LabelConstraints (out ! i)
                    = [\<lparr>Key = ''engine_role'', Op = In, Values = [''write'']\<rparr>,
                       \<lparr>Key = ''engine'', Op = In, Values = [''tiflash'']\<rparr>])"
  using enable_main_all_ok[OF assms]
  by (simp add: rewritten_def wnConstraint_def tiflashConstraint_def)

theorem in_scope_rule_is_rewritten_witness:
  "check_rule (zero_Rule\<lparr>GroupID := ''tiflash'', ID := ''keyspace-ks1-r1'', Count := 3,
       LabelConstraints := [\<lparr>Key = ''engine_role'', Op = ''notIn'', Values = [''write'']\<rparr>]\<rparr>) = Inr ()
   \<and> (\<exists>out. enable_main id id ''ks1''
         [zero_Rule\<lparr>GroupID := ''tiflash'', ID := ''keyspace-ks1-r1'', Count := 3,
            LabelConstraints := [\<lparr>Key = ''engine_role'', Op = ''notIn'', Values = [''write'']\<rparr>]\<rparr>]
         = Inr out
       \<and> length out = 1
       \<and> ID (out ! 0) = ''keyspace-ks1-r1''
       \<and> GroupID (out ! 0) = ''enable_s3_wn_region''
       \<and> Index (out ! 0) = 1
       \<and> Count (out ! 0) = 1
       \<and> LabelConstraints (out ! 0)
           = [\<lparr>Key = ''engine_role'', Op = ''in'', Values = [''write'']\<rparr>,
              \<lparr>Key = ''engine'', Op = ''in'', Values = [''tiflash'']\<rparr>])"
  using in_scope_rule_is_rewritten[of
      "[zero_Rule\<lparr>GroupID := ''tiflash'', ID := ''keyspace-ks1-r1'', Count := 3,
          LabelConstraints := [\<lparr>Key = ''engine_role'', Op = ''notIn'', Values = [''write'']\<rparr>]\<rparr>]"
      id id "''ks1''"]
  by (auto simp: check_rule_def zero_Rule_def LabelKeyEngineRole_def NotIn_def In_def
                 LabelValueEngineRoleWrite_def in_scope_def keyspacePrefix1_def)

lemma check_rule_find:
  assumes "GroupID r = ''tiflash''"
  shows "check_rule r =
     (case find (\<lambda>con. Key con = ''engine_role'') (LabelConstraints r) of
        None \<Rightarrow> Inl (DoesntDisableWn r)
      | Some con \<Rightarrow> if Op con = NotIn \<and> Values con = [''write''] then Inr ()
                    else Inl (InvalidRule r))"
  using assms
  by (simp add: check_rule_def scan_constraints_find LabelKeyEngineRole_def
                LabelValueEngineRoleWrite_def split: option.splits)

lemma enable_rule_find:
  assumes "GroupID rule = ''tiflash''"
  shows "case find (\<lambda>con. Key con = ''engine_role'') (slice_elems h (LabelConstraints rule)) of
        None \<Rightarrow> enable_rule g ks h rule = Inl (ShouldHaveEngineRole (rule_value h rule))
      | Some con \<Rightarrow> if Op con = NotIn \<and> Values con = [''write'']
                    then \<exists>res. enable_rule g ks h rule = Inr res
                    else enable_rule g ks h rule = Inl (InvalidRule (rule_value h rule))"
  using assms
  by (simp add: enable_rule_def scan_constraints_find LabelKeyEngineRole_def
                LabelValueEngineRoleWrite_def Let_def split: option.splits prod.splits)

lemma LabelConstraints_rule_value:
  "LabelConstraints (rule_value h rule) = slice_elems h (LabelConstraints rule)"
  by (simp add: rule_value_def with_constraints_def)

lemma GroupID_rule_value: "GroupID (rule_value h rule) = GroupID rule"
  by (simp add: rule_value_def with_constraints_def)

text \<open>
  C2, as the code has it. In both programs a rule of group "tiflash" is judged by its
  first label constraint with key "engine_role", and by nothing else: when there is
  none, the validator and the transformer both panic for the lack of it (each with its
  own message); when its operator is notIn and its values are exactly ["write"], both
  pass the rule; otherwise both panic with "invalid rule". So the exclusion check passes
  if and only if the first constraint with that key is the well-formed one, and the two
  programs apply the same check.
\<close>

theorem exclusion_check_first_match:
  assumes "GroupID rule = ''tiflash''"
  shows "case find (\<lambda>con. Key con = ''engine_role'') (LabelConstraints (rule_value h rule)) of
        None \<Rightarrow>
          check_rule (rule_value h rule) = Inl (DoesntDisableWn (rule_value h rule))
          \<and> enable_rule growcap keyspace h rule = Inl (ShouldHaveEngineRole (rule_value h rule))
      | Some con \<Rightarrow>
          if Op con = NotIn \<and> Values con = [''write'']
          then check_rule (rule_value h rule) = Inr ()
               \<and> (\<exists>res. enable_rule growcap keyspace h rule = Inr res)
          else check_rule (rule_value h rule) = Inl (InvalidRule (rule_value h rule))
               \<and> enable_rule growcap keyspace h rule = Inl (InvalidRule (rule_value h rule))"
proof -
  have g: "GroupID (rule_value h rule) = ''tiflash''"
    using assms by (simp add: GroupID_rule_value)
  show ?thesis
    using check_rule_find[OF g] enable_rule_find[OF assms, where h = h and g = growcap and ks = keyspace]
    by (cases "find (\<lambda>con. Key con = ''engine_role'') (slice_elems h (LabelConstraints rule))")
       (auto simp: LabelConstraints_rule_value)
qed

theorem exclusion_check_first_match_witness:
  "GroupID (with_constraints zero_Rule \<lparr>array = 0, len = 2, cap = 2\<rparr>\<lparr>GroupID := ''tiflash''\<rparr>) = ''tiflash''
   \<and> check_rule (rule_value
         [[\<lparr>Key = ''engine'', Op = ''in'', Values = [''tiflash'']\<rparr>,
           \<lparr>Key = ''engine_role'', Op = ''notIn'', Values = [''write'']\<rparr>]]
         (with_constraints zero_Rule \<lparr>array = 0, len = 2, cap = 2\<rparr>\<lparr>GroupID := ''tiflash''\<rparr>)) = Inr ()
   \<and> (\<exists>res. enable_rule id ''ks1''
         [[\<lparr>Key = ''engine'', Op = ''in'', Values = [''tiflash'']\<rparr>,
           \<lparr>Key = ''engine_role'', Op = ''notIn'', Values = [''write'']\<rparr>]]
         (with_constraints zero_Rule \<lparr>array = 0, len = 2, cap = 2\<rparr>\<lparr>GroupID := ''tiflash''\<rparr>) = Inr res)"
  using exclusion_check_first_match[where
      rule = "with_constraints zero_Rule \<lparr>array = 0, len = 2, cap = 2\<rparr>\<lparr>GroupID := ''tiflash''\<rparr>"
      and h = "[[\<lparr>Key = ''engine'', Op = ''in'', Values = [''tiflash'']\<rparr>,
         \<lparr>Key = ''engine_role'', Op = ''notIn'', Values = [''write'']\<rparr>]]"
      and growcap = id and keyspace = "''ks1''"]
  by (simp add: with_constraints_def zero_Rule_def rule_value_def slice_elems_def NotIn_def)

text \<open>
  Not any constraint with the key decides. The rule below has the well-formed
  constraint (engine_role, notIn, [write]), but second, after (engine_role, in,
  [write]); the validator and the transformer both panic with "invalid rule".
\<close>

theorem exclusion_check_later_constraint_counterexample:
  "\<lparr>Key = ''engine_role'', Op = ''notIn'', Values = [''write'']\<rparr>
     \<in> set (LabelConstraints (zero_Rule\<lparr>GroupID := ''tiflash'', LabelConstraints :=
               [\<lparr>Key = ''engine_role'', Op = ''in'', Values = [''write'']\<rparr>,
                \<lparr>Key = ''engine_role'', Op = ''notIn'', Values = [''write'']\<rparr>]\<rparr>))
   \<and> check_main [zero_Rule\<lparr>GroupID := ''tiflash'', LabelConstraints :=
               [\<lparr>Key = ''engine_role'', Op = ''in'', Values = [''write'']\<rparr>,
                \<lparr>Key = ''engine_role'', Op = ''notIn'', Values = [''write'']\<rparr>]\<rparr>]
       = Inl (InvalidRule (zero_Rule\<lparr>GroupID := ''tiflash'', LabelConstraints :=
               [\<lparr>Key = ''engine_role'', Op = ''in'', Values = [''write'']\<rparr>,
                \<lparr>Key = ''engine_role'', Op = ''notIn'', Values = [''write'']\<rparr>]\<rparr>))
   \<and> enable_main id id ''ks1'' [zero_Rule\<lparr>GroupID := ''tiflash'', LabelConstraints :=
               [\<lparr>Key = ''engine_role'', Op = ''in'', Values = [''write'']\<rparr>,
                \<lparr>Key = ''engine_role'', Op = ''notIn'', Values = [''write'']\<rparr>]\<rparr>]
       = Inl (InvalidRule (zero_Rule\<lparr>GroupID := ''tiflash'', LabelConstraints :=
               [\<lparr>Key = ''engine_role'', Op = ''in'', Values = [''write'']\<rparr>,
                \<lparr>Key = ''engine_role'', Op = ''notIn'', Values = [''write'']\<rparr>]\<rparr>))"
  by (simp add: check_main_def check_rule_def enable_main_def enable_run_def Unmarshal_def
                alloc_slice_def enable_rule_def rule_value_def slice_elems_def
                with_constraints_def zero_Rule_def LabelKeyEngineRole_def NotIn_def
                LabelValueEngineRoleWrite_def)

lemma check_main_Inl: "check_loop doc = Inl e \<Longrightarrow> check_main doc = Inl e"
  by (simp add: check_main_def)

lemma check_loop_not_ok:
  assumes "r \<in> set doc" "check_rule r \<noteq> Inr ()"
  shows "\<exists>e. check_loop doc = Inl e"
proof (cases "check_loop doc")
  case (Inl e)
  then show ?thesis by blast
next
  case (Inr u)
  then have "check_loop doc = Inr ()" by simp
  then show ?thesis using assms check_loop_all_ok[of doc] by blast
qed

lemma enable_main_not_ok:
  assumes "r \<in> set doc" "check_rule r \<noteq> Inr ()"
  shows "\<exists>e. enable_main d g ks doc = Inl e"
proof (cases "enable_main d g ks doc")
  case (Inl e)
  then show ?thesis by blast
next
  case (Inr out)
  then show ?thesis using enable_main_Inr(2)[OF Inr] assms by blast
qed

text \<open>
  C3. When some rule of the document has a groupID other than "tiflash", the validator
  and the transformer both end in a panic; neither prints its result, which comes only
  after the loop. So a document is processed to the end only if every rule's groupID is
  "tiflash".
\<close>

theorem other_group_is_rejected:
  assumes "r \<in> set doc" and "GroupID r \<noteq> ''tiflash''"
  shows "(\<exists>e. check_main doc = Inl e) \<and> (\<exists>e. enable_main deccap growcap keyspace doc = Inl e)"
proof -
  have bad: "check_rule r \<noteq> Inr ()" using assms(2) by (simp add: check_rule_def)
  show ?thesis
    using check_loop_not_ok[OF assms(1) bad] enable_main_not_ok[OF assms(1) bad]
    by (auto dest: check_main_Inl)
qed

theorem other_group_is_rejected_witness:
  "zero_Rule\<lparr>GroupID := ''other''\<rparr> \<in> set [zero_Rule\<lparr>GroupID := ''other''\<rparr>]
   \<and> GroupID (zero_Rule\<lparr>GroupID := ''other''\<rparr>) \<noteq> ''tiflash''
   \<and> (\<exists>e. check_main [zero_Rule\<lparr>GroupID := ''other''\<rparr>] = Inl e)
   \<and> (\<exists>e. enable_main id id ''ks1'' [zero_Rule\<lparr>GroupID := ''other''\<rparr>] = Inl e)"
  using other_group_is_rejected[of "zero_Rule\<lparr>GroupID := ''other''\<rparr>"
      "[zero_Rule\<lparr>GroupID := ''other''\<rparr>]" id id "''ks1''"]
  by simp

lemma enable_check_error:
  assumes "check_rule r = Inl e"
  shows "enable_check r = Inl (case e of DoesntDisableWn x \<Rightarrow> ShouldHaveEngineRole x | _ \<Rightarrow> e)"
proof (cases "GroupID r = ''tiflash''")
  case False
  then show ?thesis using assms by (auto simp: check_rule_def enable_check_def)
next
  case True
  show ?thesis
  proof (cases "find (\<lambda>c. Key c = LabelKeyEngineRole) (LabelConstraints r)")
    case None
    then show ?thesis using assms True
      by (auto simp: check_rule_def enable_check_def scan_constraints_find)
  next
    case (Some c)
    then show ?thesis using assms True
      by (auto simp: check_rule_def enable_check_def scan_constraints_find split: if_splits)
  qed
qed

text \<open>
  C4. Both programs are all-or-nothing. When the rules before \<open>r\<close> all pass the group
  check and the exclusion check and \<open>r\<close> fails one of them, the validator ends with the
  panic of \<open>r\<close>, whatever follows \<open>r\<close>; and the transformer, whatever the scope and
  whether or not \<open>r\<close> or the rules before it are in scope, ends with the same panic (under
  its own message where the constraint is missing) and prints no rule.
\<close>

theorem first_failing_rule_aborts:
  assumes "\<forall>p\<in>set pre. check_rule p = Inr ()" and "check_rule r = Inl e"
  shows "check_main (pre @ r # post) = Inl e
       \<and> enable_main deccap growcap keyspace (pre @ r # post)
           = Inl (case e of DoesntDisableWn x \<Rightarrow> ShouldHaveEngineRole x | _ \<Rightarrow> e)"
proof -
  have "check_loop (pre @ r # post) = Inl e"
    using check_loop_first_error[OF assms] .
  then have v: "check_main (pre @ r # post) = Inl e" by (rule check_main_Inl)
  have "\<forall>p\<in>set pre. enable_check p = Inr ()"
    using assms(1) by (simp add: enable_check_ok_iff)
  then have "enable_values keyspace (pre @ r # post)
             = Inl (case e of DoesntDisableWn x \<Rightarrow> ShouldHaveEngineRole x | _ \<Rightarrow> e)"
    using enable_check_error[OF assms(2)] by (rule enable_values_first_error)
  then show ?thesis using v by (simp add: enable_main_values)
qed

theorem first_failing_rule_aborts_witness:
  "check_rule (zero_Rule\<lparr>GroupID := ''tiflash'', ID := ''keyspace-ks1-r1'',
       LabelConstraints := [\<lparr>Key = ''engine_role'', Op = ''notIn'', Values = [''write'']\<rparr>]\<rparr>) = Inr ()
   \<and> check_rule (zero_Rule\<lparr>GroupID := ''tiflash'', ID := ''keyspace-ks2-r1''\<rparr>)
       = Inl (DoesntDisableWn (zero_Rule\<lparr>GroupID := ''tiflash'', ID := ''keyspace-ks2-r1''\<rparr>))
   \<and> check_main
       [zero_Rule\<lparr>GroupID := ''tiflash'', ID := ''keyspace-ks1-r1'',
          LabelConstraints := [\<lparr>Key = ''engine_role'', Op = ''notIn'', Values = [''write'']\<rparr>]\<rparr>,
        zero_Rule\<lparr>GroupID := ''tiflash'', ID := ''keyspace-ks2-r1''\<rparr>,
        zero_Rule\<lparr>GroupID := ''other''\<rparr>]
       = Inl (DoesntDisableWn (zero_Rule\<lparr>GroupID := ''tiflash'', ID := ''keyspace-ks2-r1''\<rparr>))
   \<and> enable_main id id ''ks1''
       [zero_Rule\<lparr>GroupID := ''tiflash'', ID := ''keyspace-ks1-r1'',
          LabelConstraints := [\<lparr>Key = ''engine_role'', Op = ''notIn'', Values = [''write'']\<rparr>]\<rparr>,
        zero_Rule\<lparr>GroupID := ''tiflash'', ID := ''keyspace-ks2-r1''\<rparr>,
        zero_Rule\<lparr>GroupID := ''other''\<rparr>]
       = Inl (ShouldHaveEngineRole (zero_Rule\<lparr>GroupID := ''tiflash'', ID := ''keyspace-ks2-r1''\<rparr>))"
  using first_failing_rule_aborts[where
      pre = "[zero_Rule\<lparr>GroupID := ''tiflash'', ID := ''keyspace-ks1-r1'',
          LabelConstraints := [\<lparr>Key = ''engine_role'', Op = ''notIn'', Values = [''write'']\<rparr>]\<rparr>]"
      and r = "zero_Rule\<lparr>GroupID := ''tiflash'', ID := ''keyspace-ks2-r1''\<rparr>"
      and e = "DoesntDisableWn (zero_Rule\<lparr>GroupID := ''tiflash'', ID := ''keyspace-ks2-r1''\<rparr>)"
      and post = "[zero_Rule\<lparr>GroupID := ''other''\<rparr>]"
      and deccap = id and growcap = id and keyspace = "''ks1''"]
  by (simp add: check_rule_def zero_Rule_def LabelKeyEngineRole_def NotIn_def
                LabelValueEngineRoleWrite_def)

lemma substring_iff_Contains: "(\<exists>p s. i = p @ sub @ s) = Contains i sub"
  by (simp add: Contains_iff_sublist sublist_def)

lemma ID_rewritten: "ID (rewritten r) = ID r"
  by (simp add: rewritten_def)

lemma pattern_iff_Contains:
  "(\<exists>p s. i = p @ a @ b @ c @ s) = Contains i (a @ b @ c)"
  using substring_iff_Contains[of i "a @ b @ c"] by simp

lemma in_scope_patterns:
  "in_scope ks r =
     ((\<exists>p s. ID r = p @ ''keyspace-'' @ ks @ ''-'' @ s)
      \<or> (\<exists>p s. ID r = p @ ''keyspace-id-'' @ ks @ ''-'' @ s))"
  unfolding pattern_iff_Contains
  by (simp add: in_scope_def keyspacePrefix1_def keyspacePrefix2_def)

lemma map_ID_out_patterns:
  "map ID (map rewritten (filter (in_scope ks) doc))
   = filter (\<lambda>i. (\<exists>p s. i = p @ ''keyspace-'' @ ks @ ''-'' @ s)
                \<or> (\<exists>p s. i = p @ ''keyspace-id-'' @ ks @ ''-'' @ s))
       (map ID doc)"
  by (induction doc) (simp_all add: ID_rewritten in_scope_patterns)

text \<open>
  C5. When every rule passes the checks, the transformer succeeds, and the ids of its
  output are the ids of the input rules that contain "keyspace-<scope>-" or
  "keyspace-id-<scope>-" somewhere, as a contiguous run of characters: a rule is in the
  output if and only if its id contains one of the two patterns, and a rule that
  contains neither is left out without an error. The patterns are written out here as
  the texts they are, the scope between "keyspace-" or "keyspace-id-" and "-"; an id
  that holds the scope alone, or the prefix and the scope without the closing "-", is
  in neither.
\<close>

theorem scope_decides_membership:
  assumes "\<forall>r\<in>set doc. check_rule r = Inr ()"
  shows "\<exists>out. enable_main deccap growcap keyspace doc = Inr out
           \<and> map ID out
               = filter (\<lambda>i. (\<exists>p s. i = p @ ''keyspace-'' @ keyspace @ ''-'' @ s)
                            \<or> (\<exists>p s. i = p @ ''keyspace-id-'' @ keyspace @ ''-'' @ s))
                   (map ID doc)
           \<and> (\<forall>r\<in>set doc. (ID r \<in> ID ` set out)
                  = ((\<exists>p s. ID r = p @ ''keyspace-'' @ keyspace @ ''-'' @ s)
                     \<or> (\<exists>p s. ID r = p @ ''keyspace-id-'' @ keyspace @ ''-'' @ s)))"
proof -
  let ?out = "map rewritten (filter (in_scope keyspace) doc)"
  have run: "enable_main deccap growcap keyspace doc = Inr ?out"
    using enable_main_all_ok[OF assms] .
  have ids: "map ID ?out
             = filter (\<lambda>i. (\<exists>p s. i = p @ ''keyspace-'' @ keyspace @ ''-'' @ s)
                          \<or> (\<exists>p s. i = p @ ''keyspace-id-'' @ keyspace @ ''-'' @ s))
                 (map ID doc)"
    by (rule map_ID_out_patterns)
  have "ID ` set ?out = set (map ID ?out)" by (simp only: set_map)
  then have mem: "\<forall>r\<in>set doc. (ID r \<in> ID ` set ?out)
                  = ((\<exists>p s. ID r = p @ ''keyspace-'' @ keyspace @ ''-'' @ s)
                     \<or> (\<exists>p s. ID r = p @ ''keyspace-id-'' @ keyspace @ ''-'' @ s))"
    unfolding ids by auto
  show ?thesis using run ids mem by blast
qed

theorem scope_decides_membership_witness:
  "check_rule (zero_Rule\<lparr>GroupID := ''tiflash'', ID := ''a-keyspace-ks1-r1'',
       LabelConstraints := [\<lparr>Key = ''engine_role'', Op = ''notIn'', Values = [''write'']\<rparr>]\<rparr>) = Inr ()
   \<and> check_rule (zero_Rule\<lparr>GroupID := ''tiflash'', ID := ''ks1-r2'',
       LabelConstraints := [\<lparr>Key = ''engine_role'', Op = ''notIn'', Values = [''write'']\<rparr>]\<rparr>) = Inr ()
   \<and> check_rule (zero_Rule\<lparr>GroupID := ''tiflash'', ID := ''keyspace-id-ks1-r3'',
       LabelConstraints := [\<lparr>Key = ''engine_role'', Op = ''notIn'', Values = [''write'']\<rparr>]\<rparr>) = Inr ()
   \<and> check_rule (zero_Rule\<lparr>GroupID := ''tiflash'', ID := ''keyspace-ks1'',
       LabelConstraints := [\<lparr>Key = ''engine_role'', Op = ''notIn'', Values = [''write'']\<rparr>]\<rparr>) = Inr ()
   \<and> check_rule (zero_Rule\<lparr>GroupID := ''tiflash'', ID := ''keyspace-id-ks2-r5'',
       LabelConstraints := [\<lparr>Key = ''engine_role'', Op = ''notIn'', Values = [''write'']\<rparr>]\<rparr>) = Inr ()
   \<and> (\<exists>out. enable_main id id ''ks1''
         [zero_Rule\<lparr>GroupID := ''tiflash'', ID := ''a-keyspace-ks1-r1'',
            LabelConstraints := [\<lparr>Key = ''engine_role'', Op = ''notIn'', Values = [''write'']\<rparr>]\<rparr>,
          zero_Rule\<lparr>GroupID := ''tiflash'', ID := ''ks1-r2'',
            LabelConstraints := [\<lparr>Key = ''engine_role'', Op = ''notIn'', Values = [''write'']\<rparr>]\<rparr>,
          zero_Rule\<lparr>GroupID := ''tiflash'', ID := ''keyspace-id-ks1-r3'',
            LabelConstraints := [\<lparr>Key = ''engine_role'', Op = ''notIn'', Values = [''write'']\<rparr>]\<rparr>,
          zero_Rule\<lparr>GroupID := ''tiflash'', ID := ''keyspace-ks1'',
            LabelConstraints := [\<lparr>Key = ''engine_role'', Op = ''notIn'', Values = [''write'']\<rparr>]\<rparr>,
          zero_Rule\<lparr>GroupID := ''tiflash'', ID := ''keyspace-id-ks2-r5'',
            LabelConstraints := [\<lparr>Key = ''engine_role'', Op = ''notIn'', Values = [''write'']\<rparr>]\<rparr>]
         = Inr out
       \<and> map ID out = [''a-keyspace-ks1-r1'', ''keyspace-id-ks1-r3''])"
  using scope_decides_membership[where
      doc = "[zero_Rule\<lparr>GroupID := ''tiflash'', ID := ''a-keyspace-ks1-r1'',
            LabelConstraints := [\<lparr>Key = ''engine_role'', Op = ''notIn'', Values = [''write'']\<rparr>]\<rparr>,
          zero_Rule\<lparr>GroupID := ''tiflash'', ID := ''ks1-r2'',
            LabelConstraints := [\<lparr>Key = ''engine_role'', Op = ''notIn'', Values = [''write'']\<rparr>]\<rparr>,
          zero_Rule\<lparr>GroupID := ''tiflash'', ID := ''keyspace-id-ks1-r3'',
            LabelConstraints := [\<lparr>Key = ''engine_role'', Op = ''notIn'', Values = [''write'']\<rparr>]\<rparr>,
          zero_Rule\<lparr>GroupID := ''tiflash'', ID := ''keyspace-ks1'',
            LabelConstraints := [\<lparr>Key = ''engine_role'', Op = ''notIn'', Values = [''write'']\<rparr>]\<rparr>,
          zero_Rule\<lparr>GroupID := ''tiflash'', ID := ''keyspace-id-ks2-r5'',
            LabelConstraints := [\<lparr>Key = ''engine_role'', Op = ''notIn'', Values = [''write'']\<rparr>]\<rparr>]"
      and deccap = id and growcap = id and keyspace = "''ks1''"]
  unfolding pattern_iff_Contains
  by (auto simp: check_rule_def zero_Rule_def LabelKeyEngineRole_def NotIn_def
                 LabelValueEngineRoleWrite_def)

text \<open>
  C6. When the transformer succeeds, its output is the sequence of the in-scope input
  rules, each rewritten, in the order of the input, with nothing added and nothing
  repeated: the ids of the output are a subsequence of the ids of the input, the output
  is no longer than the input, and the id of a dropped rule is the id of no output rule.
\<close>

theorem output_keeps_input_order:
  assumes "enable_main deccap growcap keyspace doc = Inr out"
  shows "out = map (\<lambda>r. r\<lparr>GroupID := ''enable_s3_wn_region'', Index := 1, Count := 1,
                          LabelConstraints := [wnConstraint, tiflashConstraint]\<rparr>)
                 (filter (in_scope keyspace) doc)
       \<and> subseq (map ID out) (map ID doc)
       \<and> length out \<le> length doc
       \<and> (\<forall>r\<in>set doc. \<not> in_scope keyspace r \<longrightarrow> ID r \<notin> ID ` set out)"
proof -
  have out: "out = map rewritten (filter (in_scope keyspace) doc)"
    using enable_main_Inr(1)[OF assms] .
  have ids: "map ID out = map ID (filter (in_scope keyspace) doc)"
    unfolding out by (simp add: ID_rewritten)
  have sub: "subseq (map ID out) (map ID doc)"
    unfolding ids by (simp add: subseq_map)
  have len: "length out \<le> length doc" unfolding out by simp
  have absent: "\<forall>r\<in>set doc. \<not> in_scope keyspace r \<longrightarrow> ID r \<notin> ID ` set out"
  proof (intro ballI impI notI)
    fix r assume r: "\<not> in_scope keyspace r" "ID r \<in> ID ` set out"
    then have "ID r \<in> set (map ID (filter (in_scope keyspace) doc))"
      using ids by (metis list.set_map)
    then obtain r' :: "LabelConstraint list Rule"
      where "in_scope keyspace r'" "ID r' = ID r" by auto
    then show False using r(1) by (simp add: in_scope_def)
  qed
  show ?thesis using out sub len absent by (simp add: rewritten_def)
qed

theorem output_keeps_input_order_witness:
  "enable_main id id ''ks1''
     [zero_Rule\<lparr>GroupID := ''tiflash'', ID := ''keyspace-ks2-r1'',
        LabelConstraints := [\<lparr>Key = ''engine_role'', Op = ''notIn'', Values = [''write'']\<rparr>]\<rparr>,
      zero_Rule\<lparr>GroupID := ''tiflash'', ID := ''keyspace-ks1-r1'',
        LabelConstraints := [\<lparr>Key = ''engine_role'', Op = ''notIn'', Values = [''write'']\<rparr>]\<rparr>,
      zero_Rule\<lparr>GroupID := ''tiflash'', ID := ''keyspace-id-ks1-r2'',
        LabelConstraints := [\<lparr>Key = ''engine_role'', Op = ''notIn'', Values = [''write'']\<rparr>]\<rparr>]
   = Inr [zero_Rule\<lparr>GroupID := ''enable_s3_wn_region'', ID := ''keyspace-ks1-r1'', Index := 1,
            Count := 1, LabelConstraints := [wnConstraint, tiflashConstraint]\<rparr>,
          zero_Rule\<lparr>GroupID := ''enable_s3_wn_region'', ID := ''keyspace-id-ks1-r2'', Index := 1,
            Count := 1, LabelConstraints := [wnConstraint, tiflashConstraint]\<rparr>]
   \<and> subseq [''keyspace-ks1-r1'', ''keyspace-id-ks1-r2'']
        [''keyspace-ks2-r1'', ''keyspace-ks1-r1'', ''keyspace-id-ks1-r2'']"
proof -
  let ?doc = "[zero_Rule\<lparr>GroupID := ''tiflash'', ID := ''keyspace-ks2-r1'',
        LabelConstraints := [\<lparr>Key = ''engine_role'', Op = ''notIn'', Values = [''write'']\<rparr>]\<rparr>,
      zero_Rule\<lparr>GroupID := ''tiflash'', ID := ''keyspace-ks1-r1'',
        LabelConstraints := [\<lparr>Key = ''engine_role'', Op = ''notIn'', Values = [''write'']\<rparr>]\<rparr>,
      zero_Rule\<lparr>GroupID := ''tiflash'', ID := ''keyspace-id-ks1-r2'',
        LabelConstraints := [\<lparr>Key = ''engine_role'', Op = ''notIn'', Values = [''write'']\<rparr>]\<rparr>]"
  let ?out = "[zero_Rule\<lparr>GroupID := ''enable_s3_wn_region'', ID := ''keyspace-ks1-r1'', Index := 1,
            Count := 1, LabelConstraints := [wnConstraint, tiflashConstraint]\<rparr>,
          zero_Rule\<lparr>GroupID := ''enable_s3_wn_region'', ID := ''keyspace-id-ks1-r2'', Index := 1,
            Count := 1, LabelConstraints := [wnConstraint, tiflashConstraint]\<rparr>]"
  have run: "enable_main id id ''ks1'' ?doc = Inr ?out"
    by (simp add: enable_main_values enable_check_def in_scope_def rewritten_def zero_Rule_def
                  LabelKeyEngineRole_def NotIn_def LabelValueEngineRoleWrite_def
                  keyspacePrefix1_def keyspacePrefix2_def)
  show ?thesis
    using output_keeps_input_order[OF run] run by (simp add: zero_Rule_def)
qed

lemma check_main_first_other_group:
  assumes "doc \<noteq> []" "GroupID (hd doc) \<noteq> ''tiflash''"
  shows "check_main doc = Inl NotTiflashGroup"
  using assms by (cases doc) (simp_all add: check_main_def check_rule_def)

text \<open>
  C7. When the transformer succeeds with at least one output rule, every output rule
  has groupID "enable_s3_wn_region", and the validator, run on a document whose rules
  carry these groupIDs (the transformer's output as the validator decodes it), ends
  with the panic for a rule outside the "tiflash" group.
\<close>

theorem validator_rejects_transformer_output:
  assumes "enable_main deccap growcap keyspace doc = Inr out" and "out \<noteq> []"
    and "map GroupID doc' = map GroupID out"
  shows "(\<forall>r\<in>set out. GroupID r = ''enable_s3_wn_region'')
       \<and> check_main doc' = Inl NotTiflashGroup"
proof -
  have out: "out = map rewritten (filter (in_scope keyspace) doc)"
    using enable_main_Inr(1)[OF assms(1)] .
  then have grp: "\<forall>r\<in>set out. GroupID r = ''enable_s3_wn_region''"
    by (auto simp: rewritten_def)
  have ne: "doc' \<noteq> []" using assms(2,3) by auto
  have "GroupID (hd doc') = hd (map GroupID doc')" using ne by (simp add: hd_map)
  also have "\<dots> = GroupID (hd out)" using assms(2,3) by (simp add: hd_map)
  also have "\<dots> = ''enable_s3_wn_region''" using grp assms(2) by simp
  finally have "GroupID (hd doc') \<noteq> ''tiflash''" by simp
  then show ?thesis using grp check_main_first_other_group[OF ne] by simp
qed

theorem validator_rejects_transformer_output_witness:
  "enable_main id id ''ks1''
     [zero_Rule\<lparr>GroupID := ''tiflash'', ID := ''keyspace-ks1-r1'', Count := 3,
        LabelConstraints := [\<lparr>Key = ''engine_role'', Op = ''notIn'', Values = [''write'']\<rparr>]\<rparr>]
   = Inr [zero_Rule\<lparr>GroupID := ''enable_s3_wn_region'', ID := ''keyspace-ks1-r1'', Index := 1,
            Count := 1, LabelConstraints := [wnConstraint, tiflashConstraint]\<rparr>]
   \<and> check_main
       [zero_Rule\<lparr>GroupID := ''enable_s3_wn_region'', ID := ''keyspace-ks1-r1'', Index := 1,
            Count := 1, LabelConstraints := [wnConstraint, tiflashConstraint]\<rparr>]
     = Inl NotTiflashGroup"
proof -
  let ?doc = "[zero_Rule\<lparr>GroupID := ''tiflash'', ID := ''keyspace-ks1-r1'', Count := 3,
        LabelConstraints := [\<lparr>Key = ''engine_role'', Op = ''notIn'', Values = [''write'']\<rparr>]\<rparr>]"
  let ?out = "[zero_Rule\<lparr>GroupID := ''enable_s3_wn_region'', ID := ''keyspace-ks1-r1'', Index := 1,
            Count := 1, LabelConstraints := [wnConstraint, tiflashConstraint]\<rparr>]"
  have run: "enable_main id id ''ks1'' ?doc = Inr ?out"
    by (simp add: enable_main_values enable_check_def in_scope_def rewritten_def zero_Rule_def
                  LabelKeyEngineRole_def NotIn_def LabelValueEngineRoleWrite_def
                  keyspacePrefix1_def)
  have ne: "?out \<noteq> []" by simp
  show ?thesis
    using validator_rejects_transformer_output[OF run ne refl] run by simp
qed

text \<open>
  C8. The fields other than groupID, index, count and labelConstraints, namely id, the
  range bounds (startKey, endKey and their hex forms), role, locationLabels and
  isolationLevel, and also override, isWitness, version, createTimestamp and the group
  reference, are in every output rule those of the in-scope input rule it comes from.
\<close>

theorem other_fields_carried_over:
  assumes "enable_main deccap growcap keyspace doc = Inr out"
  shows "map ID out = map ID (filter (in_scope keyspace) doc)
       \<and> map StartKey out = map StartKey (filter (in_scope keyspace) doc)
       \<and> map StartKeyHex out = map StartKeyHex (filter (in_scope keyspace) doc)
       \<and> map EndKey out = map EndKey (filter (in_scope keyspace) doc)
       \<and> map EndKeyHex out = map EndKeyHex (filter (in_scope keyspace) doc)
       \<and> map Role out = map Role (filter (in_scope keyspace) doc)
       \<and> map LocationLabels out = map LocationLabels (filter (in_scope keyspace) doc)
       \<and> map IsolationLevel out = map IsolationLevel (filter (in_scope keyspace) doc)
       \<and> map Override out = map Override (filter (in_scope keyspace) doc)
       \<and> map IsWitness out = map IsWitness (filter (in_scope keyspace) doc)
       \<and> map Version out = map Version (filter (in_scope keyspace) doc)
       \<and> map CreateTimestamp out = map CreateTimestamp (filter (in_scope keyspace) doc)
       \<and> map group out = map group (filter (in_scope keyspace) doc)"
  unfolding enable_main_Inr(1)[OF assms]
  by (simp add: rewritten_def)

theorem other_fields_carried_over_witness:
  "(\<exists>out. enable_main id id ''ks1''
       [zero_Rule\<lparr>GroupID := ''tiflash'', ID := ''keyspace-ks1-r1'', StartKeyHex := ''7800'',
          EndKeyHex := ''7801'', Role := Learner, Count := 3,
          LabelConstraints := [\<lparr>Key = ''engine_role'', Op = ''notIn'', Values = [''write'']\<rparr>],
          LocationLabels := [''zone''], IsolationLevel := ''zone''\<rparr>] = Inr out
     \<and> map ID out = [''keyspace-ks1-r1'']
     \<and> map StartKeyHex out = [''7800'']
     \<and> map EndKeyHex out = [''7801'']
     \<and> map Role out = [Learner]
     \<and> map LocationLabels out = [[''zone'']]
     \<and> map IsolationLevel out = [''zone''])"
proof -
  let ?doc = "[zero_Rule\<lparr>GroupID := ''tiflash'', ID := ''keyspace-ks1-r1'', StartKeyHex := ''7800'',
          EndKeyHex := ''7801'', Role := Learner, Count := 3,
          LabelConstraints := [\<lparr>Key = ''engine_role'', Op = ''notIn'', Values = [''write'']\<rparr>],
          LocationLabels := [''zone''], IsolationLevel := ''zone''\<rparr>]"
  have "\<exists>out. enable_main id id ''ks1'' ?doc = Inr out"
    by (simp add: enable_main_values enable_check_def zero_Rule_def
                  LabelKeyEngineRole_def NotIn_def LabelValueEngineRoleWrite_def)
  then obtain out where run: "enable_main id id ''ks1'' ?doc = Inr out" by blast
  have sc: "filter (in_scope ''ks1'') ?doc = ?doc"
    by (simp add: in_scope_def keyspacePrefix1_def zero_Rule_def)
  show ?thesis
    using other_fields_carried_over[OF run] run unfolding sc
    by (simp add: zero_Rule_def)
qed

lemma enable_run_curRules:
  assumes "Unmarshal d doc = (h, cur)" "enable_run d g ks doc = Inr (h', cur', new)"
  shows "cur' = cur"
  using assms by (auto simp: enable_run_def split: sum.splits)

lemma enable_run_touched:
  assumes "enable_run d g ks doc = Inr (h', cur, new)"
  shows "map (rule_value h') cur = map (touched ks) doc"
  using enable_run_values[where ks = ks and doc = doc and d = d and g = g] assms
  by (auto split: sum.splits)

text \<open>
  C9, as the code has it. A run of the transformer leaves the rule structs of
  \<open>curRules\<close> as they were decoded, and every rule outside the scope reads afterwards as
  it did when decoded. A rule in the scope does not: its copy's slice shares the backing
  array, which the two appends of lines 128 and 129 write to. Afterwards such an input
  rule has the same number of label constraints, but its first reads as the constraint
  (engine_role, in, [write]) and its second, if it has one, as (engine, in, [tiflash]);
  its constraints from the third on and all its other fields are unchanged.
\<close>

theorem input_rules_after_run:
  assumes "Unmarshal deccap doc = (h, curRules)"
    and "enable_run deccap growcap keyspace doc = Inr (h', curRules', newRules)"
  shows "curRules' = curRules
       \<and> map (rule_value h) curRules = doc
       \<and> map (rule_value h') curRules
           = map (\<lambda>r. if in_scope keyspace r
                       then r\<lparr>LabelConstraints :=
                                take (length (LabelConstraints r))
                                  (wnConstraint # tiflashConstraint # drop 2 (LabelConstraints r))\<rparr>
                       else r) doc"
proof -
  have same: "curRules' = curRules" using enable_run_curRules[OF assms] .
  have "map (rule_value h') curRules = map (touched keyspace) doc"
    using enable_run_touched[OF assms(2)] same by simp
  moreover have "touched keyspace = (\<lambda>r. if in_scope keyspace r
                       then r\<lparr>LabelConstraints :=
                                take (length (LabelConstraints r))
                                  (wnConstraint # tiflashConstraint # drop 2 (LabelConstraints r))\<rparr>
                       else r)"
    by (rule ext) (simp add: touched_def overwritten_def)
  ultimately show ?thesis using same Unmarshal_ok(2)[OF assms(1)] by simp
qed

text \<open>
  The input is changed. One rule in scope "ks1" with the single constraint
  (engine_role, notIn, [write]), decoded into an array of capacity 1: when it is read
  (first conjunct: the heap and \<open>curRules\<close>) the rule's constraint is the one of the
  document; when the loop has ended (second conjunct: the heap, \<open>curRules\<close> and
  \<open>newRules\<close>) array 0, to which the input rule still points, holds (engine_role, in,
  [write]), written by the append of line 128; the append of line 129 found the capacity
  used up and moved the output's constraints to array 1.
\<close>

theorem input_constraints_overwritten_counterexample:
  "Unmarshal id
     [zero_Rule\<lparr>GroupID := ''tiflash'', ID := ''keyspace-ks1-r1'', Count := 3,
        LabelConstraints := [\<lparr>Key = ''engine_role'', Op = ''notIn'', Values = [''write'']\<rparr>]\<rparr>]
   = ([[\<lparr>Key = ''engine_role'', Op = ''notIn'', Values = [''write'']\<rparr>]],
      [with_constraints (zero_Rule\<lparr>GroupID := ''tiflash'', ID := ''keyspace-ks1-r1'', Count := 3\<rparr>)
         \<lparr>array = 0, len = 1, cap = 1\<rparr>])
   \<and> enable_run id id ''ks1''
     [zero_Rule\<lparr>GroupID := ''tiflash'', ID := ''keyspace-ks1-r1'', Count := 3,
        LabelConstraints := [\<lparr>Key = ''engine_role'', Op = ''notIn'', Values = [''write'']\<rparr>]\<rparr>]
   = Inr ([[\<lparr>Key = ''engine_role'', Op = ''in'', Values = [''write'']\<rparr>],
           [\<lparr>Key = ''engine_role'', Op = ''in'', Values = [''write'']\<rparr>,
            \<lparr>Key = ''engine'', Op = ''in'', Values = [''tiflash'']\<rparr>]],
          [with_constraints (zero_Rule\<lparr>GroupID := ''tiflash'', ID := ''keyspace-ks1-r1'', Count := 3\<rparr>)
             \<lparr>array = 0, len = 1, cap = 1\<rparr>],
          [with_constraints (zero_Rule\<lparr>GroupID := ''enable_s3_wn_region'', ID := ''keyspace-ks1-r1'',
                                      Index := 1, Count := 1\<rparr>)
             \<lparr>array = 1, len = 2, cap = 2\<rparr>])
   \<and> LabelConstraints (rule_value
         [[\<lparr>Key = ''engine_role'', Op = ''notIn'', Values = [''write'']\<rparr>]]
         (with_constraints (zero_Rule\<lparr>GroupID := ''tiflash'', ID := ''keyspace-ks1-r1'', Count := 3\<rparr>)
            \<lparr>array = 0, len = 1, cap = 1\<rparr>))
       = [\<lparr>Key = ''engine_role'', Op = ''notIn'', Values = [''write'']\<rparr>]
   \<and> LabelConstraints (rule_value
         [[\<lparr>Key = ''engine_role'', Op = ''in'', Values = [''write'']\<rparr>],
          [\<lparr>Key = ''engine_role'', Op = ''in'', Values = [''write'']\<rparr>,
           \<lparr>Key = ''engine'', Op = ''in'', Values = [''tiflash'']\<rparr>]]
         (with_constraints (zero_Rule\<lparr>GroupID := ''tiflash'', ID := ''keyspace-ks1-r1'', Count := 3\<rparr>)
            \<lparr>array = 0, len = 1, cap = 1\<rparr>))
       = [\<lparr>Key = ''engine_role'', Op = ''in'', Values = [''write'']\<rparr>]"
  by (simp add: enable_run_def Unmarshal_def alloc_slice_def enable_rule_def append_slice_def
                rule_value_def slice_elems_def with_constraints_def zero_Rule_def
                LabelKeyEngineRole_def NotIn_def In_def LabelValueEngineRoleWrite_def
                keyspacePrefix1_def wnConstraint_def tiflashConstraint_def Let_def)

theorem input_rules_after_run_witness:
  "(\<exists>h curRules h' newRules.
      Unmarshal Suc
        [zero_Rule\<lparr>GroupID := ''tiflash'', ID := ''keyspace-ks1-r1'', LabelConstraints :=
           [\<lparr>Key = ''engine_role'', Op = ''notIn'', Values = [''write'']\<rparr>,
            \<lparr>Key = ''engine'', Op = ''in'', Values = [''tiflash'']\<rparr>,
            \<lparr>Key = ''zone'', Op = ''in'', Values = [''z1'']\<rparr>]\<rparr>,
         zero_Rule\<lparr>GroupID := ''tiflash'', ID := ''keyspace-ks2-r1'', LabelConstraints :=
           [\<lparr>Key = ''engine_role'', Op = ''notIn'', Values = [''write'']\<rparr>]\<rparr>]
        = (h, curRules)
    \<and> enable_run Suc id ''ks1''
        [zero_Rule\<lparr>GroupID := ''tiflash'', ID := ''keyspace-ks1-r1'', LabelConstraints :=
           [\<lparr>Key = ''engine_role'', Op = ''notIn'', Values = [''write'']\<rparr>,
            \<lparr>Key = ''engine'', Op = ''in'', Values = [''tiflash'']\<rparr>,
            \<lparr>Key = ''zone'', Op = ''in'', Values = [''z1'']\<rparr>]\<rparr>,
         zero_Rule\<lparr>GroupID := ''tiflash'', ID := ''keyspace-ks2-r1'', LabelConstraints :=
           [\<lparr>Key = ''engine_role'', Op = ''notIn'', Values = [''write'']\<rparr>]\<rparr>]
        = Inr (h', curRules, newRules)
    \<and> map (rule_value h') curRules
        = [zero_Rule\<lparr>GroupID := ''tiflash'', ID := ''keyspace-ks1-r1'', LabelConstraints :=
             [\<lparr>Key = ''engine_role'', Op = ''in'', Values = [''write'']\<rparr>,
              \<lparr>Key = ''engine'', Op = ''in'', Values = [''tiflash'']\<rparr>,
              \<lparr>Key = ''zone'', Op = ''in'', Values = [''z1'']\<rparr>]\<rparr>,
           zero_Rule\<lparr>GroupID := ''tiflash'', ID := ''keyspace-ks2-r1'', LabelConstraints :=
             [\<lparr>Key = ''engine_role'', Op = ''notIn'', Values = [''write'']\<rparr>]\<rparr>])"
proof -
  let ?doc = "[zero_Rule\<lparr>GroupID := ''tiflash'', ID := ''keyspace-ks1-r1'', LabelConstraints :=
           [\<lparr>Key = ''engine_role'', Op = ''notIn'', Values = [''write'']\<rparr>,
            \<lparr>Key = ''engine'', Op = ''in'', Values = [''tiflash'']\<rparr>,
            \<lparr>Key = ''zone'', Op = ''in'', Values = [''z1'']\<rparr>]\<rparr>,
         zero_Rule\<lparr>GroupID := ''tiflash'', ID := ''keyspace-ks2-r1'', LabelConstraints :=
           [\<lparr>Key = ''engine_role'', Op = ''notIn'', Values = [''write'']\<rparr>]\<rparr>]"
  obtain h curRules where un: "Unmarshal Suc ?doc = (h, curRules)"
    by (cases "Unmarshal Suc ?doc") auto
  have "\<exists>out. enable_values ''ks1'' ?doc = Inr out"
    by (simp add: enable_check_def zero_Rule_def LabelKeyEngineRole_def NotIn_def
                  LabelValueEngineRoleWrite_def)
  then obtain h' curRules' newRules
    where run: "enable_run Suc id ''ks1'' ?doc = Inr (h', curRules', newRules)"
    using enable_run_values[where ks = "''ks1''" and doc = ?doc and d = Suc and g = id]
    by auto
  have sc: "in_scope ''ks1'' (zero_Rule\<lparr>GroupID := ''tiflash'', ID := ''keyspace-ks1-r1'', LabelConstraints :=
           [\<lparr>Key = ''engine_role'', Op = ''notIn'', Values = [''write'']\<rparr>,
            \<lparr>Key = ''engine'', Op = ''in'', Values = [''tiflash'']\<rparr>,
            \<lparr>Key = ''zone'', Op = ''in'', Values = [''z1'']\<rparr>]\<rparr>)"
    "\<not> in_scope ''ks1'' (zero_Rule\<lparr>GroupID := ''tiflash'', ID := ''keyspace-ks2-r1'', LabelConstraints :=
           [\<lparr>Key = ''engine_role'', Op = ''notIn'', Values = [''write'']\<rparr>]\<rparr>)"
    by (simp_all add: in_scope_def keyspacePrefix1_def keyspacePrefix2_def zero_Rule_def)
  have both: "curRules' = curRules
      \<and> map (rule_value h') curRules
        = [zero_Rule\<lparr>GroupID := ''tiflash'', ID := ''keyspace-ks1-r1'', LabelConstraints :=
             [\<lparr>Key = ''engine_role'', Op = ''in'', Values = [''write'']\<rparr>,
              \<lparr>Key = ''engine'', Op = ''in'', Values = [''tiflash'']\<rparr>,
              \<lparr>Key = ''zone'', Op = ''in'', Values = [''z1'']\<rparr>]\<rparr>,
           zero_Rule\<lparr>GroupID := ''tiflash'', ID := ''keyspace-ks2-r1'', LabelConstraints :=
             [\<lparr>Key = ''engine_role'', Op = ''notIn'', Values = [''write'']\<rparr>]\<rparr>]"
    using input_rules_after_run[OF un run] sc
    by (simp add: wnConstraint_def tiflashConstraint_def In_def zero_Rule_def)
  have run': "enable_run Suc id ''ks1'' ?doc = Inr (h', curRules, newRules)"
    using run both by (simp only:)
  show ?thesis
    by (rule exI[of _ h], rule exI[of _ curRules], rule exI[of _ h'], rule exI[of _ newRules])
       (intro conjI un run' conjunct2[OF both])
qed

lemma scan_constraints_first:
  assumes "\<forall>p\<in>set pre. Key p \<noteq> LabelKeyEngineRole"
    and "Key con = LabelKeyEngineRole" "Op con = NotIn" "Values con = [LabelValueEngineRoleWrite]"
  shows "scan_constraints r (pre @ con # post) = Inr True"
  using assms by (induction pre) auto

text \<open>
  C10. When the first label constraint with key "engine_role" of a rule of group
  "tiflash" is well-formed (operator notIn, values exactly ["write"]), the rule passes
  the exclusion check of the validator and of the transformer, whatever constraints
  follow it, also further ones with the same key.
\<close>

theorem first_engine_role_constraint_decides:
  assumes "GroupID r = ''tiflash''"
    and "LabelConstraints r = pre @ con # post"
    and "\<forall>p\<in>set pre. Key p \<noteq> ''engine_role''"
    and "Key con = ''engine_role''" and "Op con = NotIn" and "Values con = [''write'']"
  shows "check_rule r = Inr ()
       \<and> check_main [r] = Inr ''check done, all rules has engine_role constraints''
       \<and> (\<exists>out. enable_main deccap growcap keyspace [r] = Inr out)"
proof -
  have "scan_constraints r (LabelConstraints r) = Inr True"
    unfolding assms(2) using assms(3-6)
    by (intro scan_constraints_first)
       (simp_all add: LabelKeyEngineRole_def LabelValueEngineRoleWrite_def)
  then have ok: "check_rule r = Inr ()" using assms(1) by (simp add: check_rule_def)
  then have "\<forall>x\<in>set [r]. check_rule x = Inr ()" by simp
  then have "enable_main deccap growcap keyspace [r]
             = Inr (map rewritten (filter (in_scope keyspace) [r]))"
    by (rule enable_main_all_ok)
  then show ?thesis using ok by (simp add: check_main_def)
qed

theorem first_engine_role_constraint_decides_witness:
  "check_rule (zero_Rule\<lparr>GroupID := ''tiflash'', ID := ''keyspace-ks1-r1'', LabelConstraints :=
       [\<lparr>Key = ''engine'', Op = ''in'', Values = [''tiflash'']\<rparr>,
        \<lparr>Key = ''engine_role'', Op = ''notIn'', Values = [''write'']\<rparr>,
        \<lparr>Key = ''engine_role'', Op = ''in'', Values = [''write'', ''read'']\<rparr>]\<rparr>) = Inr ()
   \<and> check_main [zero_Rule\<lparr>GroupID := ''tiflash'', ID := ''keyspace-ks1-r1'', LabelConstraints :=
       [\<lparr>Key = ''engine'', Op = ''in'', Values = [''tiflash'']\<rparr>,
        \<lparr>Key = ''engine_role'', Op = ''notIn'', Values = [''write'']\<rparr>,
        \<lparr>Key = ''engine_role'', Op = ''in'', Values = [''write'', ''read'']\<rparr>]\<rparr>]
       = Inr ''check done, all rules has engine_role constraints''
   \<and> (\<exists>out. enable_main id id ''ks1''
         [zero_Rule\<lparr>GroupID := ''tiflash'', ID := ''keyspace-ks1-r1'', LabelConstraints :=
           [\<lparr>Key = ''engine'', Op = ''in'', Values = [''tiflash'']\<rparr>,
            \<lparr>Key = ''engine_role'', Op = ''notIn'', Values = [''write'']\<rparr>,
            \<lparr>Key = ''engine_role'', Op = ''in'', Values = [''write'', ''read'']\<rparr>]\<rparr>] = Inr out)"
  using first_engine_role_constraint_decides[where
      r = "zero_Rule\<lparr>GroupID := ''tiflash'', ID := ''keyspace-ks1-r1'', LabelConstraints :=
       [\<lparr>Key = ''engine'', Op = ''in'', Values = [''tiflash'']\<rparr>,
        \<lparr>Key = ''engine_role'', Op = ''notIn'', Values = [''write'']\<rparr>,
        \<lparr>Key = ''engine_role'', Op = ''in'', Values = [''write'', ''read'']\<rparr>]\<rparr>"
      and pre = "[\<lparr>Key = ''engine'', Op = ''in'', Values = [''tiflash'']\<rparr>]"
      and con = "\<lparr>Key = ''engine_role'', Op = ''notIn'', Values = [''write'']\<rparr>"
      and post = "[\<lparr>Key = ''engine_role'', Op = ''in'', Values = [''write'', ''read'']\<rparr>]"
      and deccap = id and growcap = id and keyspace = "''ks1''"]
  by (simp add: zero_Rule_def NotIn_def)

end
